theory Spec2Isabelle
  imports Main "HOL-Library.Word"
begin

section \<open>Python values used by the codec\<close>

text \<open>
  The module \<^verbatim>\<open>mtprothon/type_language/primitives.py\<close> serialises the primitive
  types of MTProto's Type Language. A Python \<^verbatim>\<open>bytes\<close> object is a list of bytes,
  a Python \<^verbatim>\<open>int\<close> is an unbounded integer, and a Python \<^verbatim>\<open>str\<close> is a list of
  Unicode code points.
\<close>

type_synonym byte = "8 word"

type_synonym pystr = "nat list"

text \<open>The exceptions that the built-in operations used by the module can raise.\<close>

datatype error = OverflowError | StructError | UnicodeEncodeError | AttributeError

subsection \<open>\<^verbatim>\<open>int.to_bytes\<close> and \<^verbatim>\<open>int.from_bytes\<close>, byte order little\<close>

text \<open>
  \<open>to_le n x\<close> lists the \<open>n\<close> low bytes of \<open>x\<close>, least significant first. Division
  and remainder on \<open>int\<close> round towards minus infinity, so for a negative \<open>x\<close> these
  are the bytes of its two's complement.
\<close>

fun to_le :: "nat \<Rightarrow> int \<Rightarrow> byte list" where
  "to_le 0 x = []"
| "to_le (Suc n) x = word_of_int (x mod 256) # to_le n (x div 256)"

fun from_le :: "byte list \<Rightarrow> int" where
  "from_le [] = 0"
| "from_le (b # bs) = uint b + 256 * from_le bs"

text \<open>
  \<^verbatim>\<open>x.to_bytes(length, byteorder="little", signed=signed)\<close> raises OverflowError when
  \<open>x\<close> does not fit: a negative \<open>x\<close> with \<^verbatim>\<open>signed=False\<close>, or an \<open>x\<close> outside the
  range of \<open>length\<close> bytes.
\<close>

definition to_bytes :: "int \<Rightarrow> nat \<Rightarrow> bool \<Rightarrow> error + byte list" where
  "to_bytes x len is_signed =
     (if is_signed then
        (if - (2 ^ (8 * len)) \<le> 2 * x \<and> 2 * x < 2 ^ (8 * len) then Inr (to_le len x)
         else Inl OverflowError)
      else
        (if 0 \<le> x \<and> x < 2 ^ (8 * len) then Inr (to_le len x)
         else Inl OverflowError))"

text \<open>
  \<^verbatim>\<open>int.from_bytes(bs, byteorder="little", signed=signed)\<close> accepts any number of
  bytes, also none (the result is then 0), and never raises.
\<close>

definition from_bytes :: "byte list \<Rightarrow> bool \<Rightarrow> int" where
  "from_bytes bs is_signed =
     (let u = from_le bs in
      if is_signed \<and> 2 ^ (8 * length bs) \<le> 2 * u then u - 2 ^ (8 * length bs) else u)"

subsection \<open>\<^verbatim>\<open>io.BytesIO\<close>\<close>

text \<open>
  A \<^verbatim>\<open>BytesIO\<close> is a buffer with a read position. \<^verbatim>\<open>read(size)\<close> returns the bytes
  from the position on, at most \<open>size\<close> of them (all of them for a negative \<open>size\<close>),
  and moves the position past them. When fewer than \<open>size\<close> bytes are left it returns
  the shorter string; it does not raise.
\<close>

record BytesIO =
  buf :: "byte list"
  pos :: nat

definition remaining :: "BytesIO \<Rightarrow> nat" where
  "remaining data = length (buf data) - pos data"

definition read :: "BytesIO \<Rightarrow> int \<Rightarrow> byte list \<times> BytesIO" where
  "read data n =
     (let k = (if n < 0 then remaining data else min (nat n) (remaining data))
      in (take k (drop (pos data) (buf data)), data\<lparr>pos := pos data + k\<rparr>))"

section \<open>The integer types\<close>

text \<open>
  \<^verbatim>\<open>Int\<close> and its subclasses \<^verbatim>\<open>Long\<close>, \<^verbatim>\<open>Int128\<close> and \<^verbatim>\<open>Int256\<close> differ in the class
  attribute \<^verbatim>\<open>LENGTH\<close> only. The class \<^verbatim>\<open>Int\<close> is written \<open>Int32\<close> here, since
  \<open>Int\<close> is taken by the library's set intersection.
\<close>

datatype int_class = Int32 | Long | Int128 | Int256

fun LENGTH_of :: "int_class \<Rightarrow> nat" where
  "LENGTH_of Int32 = 4"
| "LENGTH_of Long = 8"
| "LENGTH_of Int128 = 16"
| "LENGTH_of Int256 = 32"

text \<open>
  A method that reads from the stream returns its result, or the exception it raised,
  together with the stream as the call left it.
\<close>

definition Int_serialize :: "int_class \<Rightarrow> int \<Rightarrow> bool \<Rightarrow> error + byte list" where
  "Int_serialize cls v is_signed = to_bytes v (LENGTH_of cls) is_signed"

definition Int_deserialize :: "int_class \<Rightarrow> BytesIO \<Rightarrow> bool \<Rightarrow> (error + int) \<times> BytesIO" where
  "Int_deserialize cls data is_signed =
     (let (bs, data') = read data (int (LENGTH_of cls))
      in (Inr (from_bytes bs is_signed), data'))"

section \<open>Double\<close>

text \<open>
  \<^verbatim>\<open>struct.unpack('<d', bs)\<close> raises \<^verbatim>\<open>struct.error\<close> unless \<open>bs\<close> has exactly 8
  bytes. The float it returns is represented by its IEEE-754 bit pattern, the 64-bit
  little-endian value of the 8 bytes.
\<close>

definition Double_deserialize :: "BytesIO \<Rightarrow> (error + 64 word) \<times> BytesIO" where
  "Double_deserialize data =
     (let (bs, data') = read data 8
      in (if length bs = 8 then Inr (word_of_int (from_le bs)) else Inl StructError, data'))"

section \<open>Bool\<close>

definition BOOL_TRUE :: int where
  "BOOL_TRUE = 0x997275b5"

definition BOOL_FALSE :: int where
  "BOOL_FALSE = 0xbc799737"

definition Bool_serialize :: "bool \<Rightarrow> error + byte list" where
  "Bool_serialize v =
     (let constructor_id = (if v then BOOL_TRUE else BOOL_FALSE)
      in Int_serialize Int32 constructor_id False)"

definition Bool_deserialize :: "BytesIO \<Rightarrow> (error + bool) \<times> BytesIO" where
  "Bool_deserialize data =
     (case Int_deserialize Int32 data False of
        (Inl e, data') \<Rightarrow> (Inl e, data')
      | (Inr x, data') \<Rightarrow> (Inr (x = BOOL_TRUE), data'))"

section \<open>Bytes\<close>

text \<open>
  The length prefix is one byte for a payload of at most 253 bytes, and the byte
  \<open>0xFE\<close> followed by the length in 3 bytes otherwise; \<^verbatim>\<open>length.to_bytes(3, ...)\<close>
  raises OverflowError for a length that does not fit 3 bytes. Zero bytes are appended
  up to a multiple of 4.
\<close>

definition Bytes_serialize :: "byte list \<Rightarrow> error + byte list" where
  "Bytes_serialize v =
     (let len = length v in
      case (if len \<le> 253 then Inr ([word_of_nat len] @ v)
            else (case to_bytes (int len) 3 False of
                    Inl e \<Rightarrow> Inl e
                  | Inr lb \<Rightarrow> Inr ([0xFE] @ lb @ v))) of
        Inl e \<Rightarrow> Inl e
      | Inr result \<Rightarrow>
          (let current_length = length result;
               padding_needed = (4 - current_length mod 4) mod 4
           in Inr (result @ replicate padding_needed 0)))"

definition Bytes_deserialize :: "BytesIO \<Rightarrow> (error + byte list) \<times> BytesIO" where
  "Bytes_deserialize data =
     (let (b1, data1) = read data 1;
          first_byte = from_bytes b1 False;
          (len, data2) =
            (if first_byte \<le> 253 then (first_byte, data1)
             else (let (b3, data') = read data1 3 in (from_bytes b3 False, data')));
          (payload, data3) = read data2 len
      in (Inr payload, data3))"

section \<open>String\<close>

text \<open>
  Modelled from the spec: the base class \<^verbatim>\<open>TLObject\<close> (module \<^verbatim>\<open>tlobject\<close>) is
  imported by the module but is not among the sources. An object is built from one
  value (\<^verbatim>\<open>Int(constructor_id)\<close>) and holds it in its field \<^verbatim>\<open>value\<close>, here
  \<open>tl_value\<close>.
\<close>

record 'v TLObject =
  tl_value :: 'v

text \<open>
  The field of a \<^verbatim>\<open>String\<close> object holds a \<^verbatim>\<open>str\<close> when the object is built, and
  \<^verbatim>\<open>String.serialize\<close> assigns a \<^verbatim>\<open>bytes\<close> to it.
\<close>

datatype str_or_bytes = Str pystr | Bytes "byte list"

text \<open>
  \<^verbatim>\<open>str.encode("utf-8")\<close>: one to four bytes for each code point; a surrogate
  (\<open>0xD800\<close> to \<open>0xDFFF\<close>) raises UnicodeEncodeError. A \<^verbatim>\<open>str\<close> holds no code point
  above \<open>0x10FFFF\<close>.
\<close>

definition utf8_char :: "nat \<Rightarrow> error + byte list" where
  "utf8_char c =
     (if c < 0x80 then Inr [word_of_nat c]
      else if c < 0x800 then
        Inr [word_of_nat (0xC0 + c div 64), word_of_nat (0x80 + c mod 64)]
      else if 0xD800 \<le> c \<and> c \<le> 0xDFFF then Inl UnicodeEncodeError
      else if c < 0x10000 then
        Inr [word_of_nat (0xE0 + c div 4096), word_of_nat (0x80 + (c div 64) mod 64),
             word_of_nat (0x80 + c mod 64)]
      else
        Inr [word_of_nat (0xF0 + c div 262144), word_of_nat (0x80 + (c div 4096) mod 64),
             word_of_nat (0x80 + (c div 64) mod 64), word_of_nat (0x80 + c mod 64)])"

fun encode_utf8 :: "pystr \<Rightarrow> error + byte list" where
  "encode_utf8 [] = Inr []"
| "encode_utf8 (c # cs) =
     (case utf8_char c of
        Inl e \<Rightarrow> Inl e
      | Inr bs \<Rightarrow> (case encode_utf8 cs of Inl e \<Rightarrow> Inl e | Inr rest \<Rightarrow> Inr (bs @ rest)))"

text \<open>
  \<^verbatim>\<open>self.value.encode\<close> raises AttributeError when the field holds a \<^verbatim>\<open>bytes\<close>, which
  has no such method. The assignment to the field happens before the call of
  \<^verbatim>\<open>Bytes.serialize\<close>, so it stays when that call raises.
\<close>

definition String_serialize ::
  "str_or_bytes TLObject \<Rightarrow> (error + byte list) \<times> str_or_bytes TLObject" where
  "String_serialize self =
     (case tl_value self of
        Bytes b \<Rightarrow> (Inl AttributeError, self)
      | Str s \<Rightarrow>
          (case encode_utf8 s of
             Inl e \<Rightarrow> (Inl e, self)
           | Inr b \<Rightarrow>
               (let self' = self\<lparr>tl_value := Bytes b\<rparr>
                in (Bytes_serialize b, self'))))"

text \<open>
  \<^verbatim>\<open>bytes.decode(errors="replace")\<close> is total: it puts U+FFFD in place of what is not
  UTF-8. It is a parameter of the model.
\<close>

definition String_deserialize ::
  "(byte list \<Rightarrow> pystr) \<Rightarrow> BytesIO \<Rightarrow> (error + pystr) \<times> BytesIO" where
  "String_deserialize decode data =
     (case Bytes_deserialize data of
        (Inl e, data') \<Rightarrow> (Inl e, data')
      | (Inr b, data') \<Rightarrow> (Inr (decode b), data'))"

section \<open>Vector\<close>

text \<open>
  The element type is any class with a \<^verbatim>\<open>deserialize\<close> method, given by that method.
  \<^verbatim>\<open>range(count)\<close> is empty for a \<open>count\<close> below 1. An exception of the element's
  \<^verbatim>\<open>deserialize\<close> ends the loop and is the exception of the call.
\<close>

fun Vector_items ::
  "nat \<Rightarrow> (BytesIO \<Rightarrow> (error + 'a) \<times> BytesIO) \<Rightarrow> BytesIO \<Rightarrow> 'a list
     \<Rightarrow> (error + 'a list) \<times> BytesIO" where
  "Vector_items 0 ty data items = (Inr items, data)"
| "Vector_items (Suc k) ty data items =
     (case ty data of
        (Inl e, data') \<Rightarrow> (Inl e, data')
      | (Inr item, data') \<Rightarrow> Vector_items k ty data' (items @ [item]))"

definition Vector_deserialize ::
  "BytesIO \<Rightarrow> (BytesIO \<Rightarrow> (error + 'a) \<times> BytesIO) \<Rightarrow> (error + 'a list) \<times> BytesIO" where
  "Vector_deserialize data ty =
     (case Int_deserialize Int32 data True of
        (Inl e, data1) \<Rightarrow> (Inl e, data1)
      | (Inr constructor, data1) \<Rightarrow>
          (case Int_deserialize Int32 data1 True of
             (Inl e, data2) \<Rightarrow> (Inl e, data2)
           | (Inr count, data2) \<Rightarrow> Vector_items (nat count) ty data2 []))"

text \<open>
  What the specification says of the loop, to compare with \<open>Vector_items\<close>:
  \<open>successive_reads ty data xs data'\<close> holds when calling \<open>ty\<close> once for each element
  of \<open>xs\<close>, each call on the stream as the call before left it, starting with \<open>data\<close>,
  returns the elements of \<open>xs\<close> in their order, none of the calls raises, and the last
  one leaves the stream \<open>data'\<close>.
\<close>

fun successive_reads ::
  "(BytesIO \<Rightarrow> (error + 'a) \<times> BytesIO) \<Rightarrow> BytesIO \<Rightarrow> 'a list \<Rightarrow> BytesIO \<Rightarrow> bool" where
  "successive_reads ty data [] data' = (data' = data)"
| "successive_reads ty data (x # xs) data' =
     (case ty data of
        (Inl e, data1) \<Rightarrow> False
      | (Inr y, data1) \<Rightarrow> y = x \<and> successive_reads ty data1 xs data')"

section \<open>Properties of the byte encoding of integers\<close>

lemma length_to_le: "length (to_le n x) = n"
  by (induction n arbitrary: x) simp_all

lemma from_le_to_le: "from_le (to_le n x) = x mod 256 ^ n"
proof (induction n arbitrary: x)
  case 0
  show ?case by simp
next
  case (Suc n)
  have "uint (word_of_int (x mod 256) :: byte) = x mod 256"
    by (simp add: uint_word_of_int take_bit_eq_mod)
  then have "from_le (to_le (Suc n) x) = x mod 256 + 256 * ((x div 256) mod 256 ^ n)"
    by (simp add: Suc.IH)
  also have "\<dots> = x mod 256 ^ Suc n"
    by (simp add: zmod_zmult2_eq)
  finally show ?case .
qed

lemma from_le_nonneg: "0 \<le> from_le bs"
  by (induction bs) simp_all

lemma from_le_less: "from_le bs < 256 ^ length bs"
proof (induction bs)
  case Nil
  show ?case by simp
next
  case (Cons b bs)
  have "uint b < 256" using uint_bounded [of b] by simp
  moreover have "from_le bs + 1 \<le> 256 ^ length bs" using Cons.IH by simp
  ultimately show ?case by simp
qed

text \<open>Unfolding rules for evaluating the recursions at a numeral.\<close>

lemma to_le_numeral:
  "to_le (numeral k) x = word_of_int (x mod 256) # to_le (pred_numeral k) (x div 256)"
  by (simp add: numeral_eq_Suc)

lemma replicate_numeral:
  "replicate (numeral k) x = x # replicate (pred_numeral k) x"
  by (simp add: numeral_eq_Suc)

section \<open>Reading from the stream\<close>

lemma power_256: "(256::int) ^ n = 2 ^ (8 * n)"
  by (simp add: power_mult)

lemma read_exact:
  "read \<lparr>buf = pre @ bs @ rest, pos = length pre\<rparr> (int (length bs)) =
     (bs, \<lparr>buf = pre @ bs @ rest, pos = length pre + length bs\<rparr>)"
  by (simp add: read_def remaining_def)

lemma from_bytes_to_le_unsigned:
  assumes "0 \<le> x" and "x < 2 ^ (8 * n)"
  shows "from_bytes (to_le n x) False = x"
  using assms by (simp add: from_bytes_def from_le_to_le power_256)

lemma from_bytes_to_le_signed:
  assumes "- (2 ^ (8 * n)) \<le> 2 * x" and "2 * x < 2 ^ (8 * n)"
  shows "from_bytes (to_le n x) True = x"
proof (cases "0 \<le> x")
  case True
  with assms have "x mod 2 ^ (8 * n) = x" by simp
  with assms show ?thesis
    by (simp add: from_bytes_def from_le_to_le power_256 length_to_le)
next
  case False
  with assms have "(x + 2 ^ (8 * n)) mod 2 ^ (8 * n) = x + 2 ^ (8 * n)"
    by (intro mod_pos_pos_trivial) simp_all
  then have "x mod 2 ^ (8 * n) = x + 2 ^ (8 * n)" by simp
  with assms False show ?thesis
    by (simp add: from_bytes_def from_le_to_le power_256 length_to_le)
qed

lemma LENGTH_of_pos: "0 < LENGTH_of cls"
  by (cases cls) simp_all

lemma to_le_from_le: "to_le (length bs) (from_le bs) = bs"
proof (induction bs)
  case Nil
  show ?case by simp
next
  case (Cons b bs)
  have "uint b < 256" using uint_bounded [of b] by simp
  then have "(uint b + 256 * from_le bs) mod 256 = uint b"
    and "(uint b + 256 * from_le bs) div 256 = from_le bs"
    by simp_all
  with Cons.IH show ?case by simp
qed

lemma from_le_eq_iff:
  assumes "0 \<le> x" and "x < 256 ^ length bs"
  shows "from_le bs = x \<longleftrightarrow> bs = to_le (length bs) x"
proof
  assume "from_le bs = x"
  with to_le_from_le [of bs] show "bs = to_le (length bs) x" by simp
next
  assume "bs = to_le (length bs) x"
  then have "from_le bs = from_le (to_le (length bs) x)" by simp
  with assms show "from_le bs = x" by (simp add: from_le_to_le)
qed

section \<open>The output of \<^verbatim>\<open>Bytes.serialize\<close>\<close>

lemma padding_aligns: "(n + (4 - n mod 4) mod 4) mod 4 = (0::nat)"
proof -
  define r where "r = n mod 4"
  have "r < 4" by (simp add: r_def)
  then have "r = 0 \<or> r = 1 \<or> r = 2 \<or> r = 3" by linarith
  then have "(r + (4 - r) mod 4) mod 4 = 0" by auto
  moreover have "(n + (4 - r) mod 4) mod 4 = (r + (4 - r) mod 4) mod 4"
    unfolding r_def by (simp add: mod_add_left_eq)
  ultimately show ?thesis by (simp add: r_def)
qed

lemma Bytes_serialize_short:
  assumes "length v \<le> 253"
  shows "Bytes_serialize v =
           Inr ([word_of_nat (length v)] @ v @ replicate ((4 - (1 + length v) mod 4) mod 4) 0)"
  using assms by (simp add: Bytes_serialize_def Let_def)

lemma Bytes_serialize_long:
  assumes "253 < length v" and "length v < 2 ^ 24"
  shows "Bytes_serialize v =
           Inr ([0xFE] @ to_le 3 (int (length v)) @ v @
                replicate ((4 - (4 + length v) mod 4) mod 4) 0)"
proof -
  have "int (length v) < 2 ^ 24" using assms(2) by simp
  then have "to_bytes (int (length v)) 3 False = Inr (to_le 3 (int (length v)))"
    by (simp add: to_bytes_def)
  with assms(1) show ?thesis
    by (simp add: Bytes_serialize_def Let_def length_to_le)
qed

lemma Bytes_serialize_overflow:
  assumes "2 ^ 24 \<le> length v"
  shows "Bytes_serialize v = Inl OverflowError"
proof -
  have "\<not> int (length v) < 2 ^ 24" using assms by simp
  then have "to_bytes (int (length v)) 3 False = Inl OverflowError"
    by (simp add: to_bytes_def)
  moreover have "\<not> length v \<le> 253" using assms by simp
  ultimately show ?thesis by (simp add: Bytes_serialize_def Let_def)
qed

section \<open>The reads of \<^verbatim>\<open>Bytes.deserialize\<close>\<close>

lemma read_at:
  assumes "buf data = pre @ rest" and "pos data = length pre"
  shows "read data (int n) = (take n rest, data\<lparr>pos := length pre + min n (length rest)\<rparr>)"
  using assms by (simp add: read_def remaining_def Let_def min_def)

lemma from_bytes_single: "from_bytes [b] False = uint b"
  by (simp add: from_bytes_def)

lemma Bytes_deserialize_short:
  assumes "uint b \<le> 253"
  shows "Bytes_deserialize \<lparr>buf = pre @ [b] @ rest, pos = length pre\<rparr> =
           (Inr (take (unat b) rest),
            \<lparr>buf = pre @ [b] @ rest, pos = length pre + 1 + min (unat b) (length rest)\<rparr>)"
proof -
  let ?data = "\<lparr>buf = pre @ [b] @ rest, pos = length pre\<rparr>"
  let ?data1 = "\<lparr>buf = pre @ [b] @ rest, pos = length pre + 1\<rparr>"
  have r1: "read ?data 1 = ([b], ?data1)"
    using read_at [of ?data pre "[b] @ rest" 1] by simp
  have "buf ?data1 = (pre @ [b]) @ rest" and "pos ?data1 = length (pre @ [b])"
    by simp_all
  then have r2: "read ?data1 (int (unat b)) =
      (take (unat b) rest, ?data1\<lparr>pos := length (pre @ [b]) + min (unat b) (length rest)\<rparr>)"
    by (rule read_at)
  have "int (unat b) = uint b" by simp
  with r1 r2 assms show ?thesis
    by (simp add: Bytes_deserialize_def from_bytes_single)
qed

lemma Bytes_deserialize_long:
  assumes "253 < uint b"
  shows "Bytes_deserialize \<lparr>buf = pre @ [b, l0, l1, l2] @ rest, pos = length pre\<rparr> =
           (Inr (take (nat (from_le [l0, l1, l2])) rest),
            \<lparr>buf = pre @ [b, l0, l1, l2] @ rest,
             pos = length pre + 4 + min (nat (from_le [l0, l1, l2])) (length rest)\<rparr>)"
proof -
  let ?buf = "pre @ [b, l0, l1, l2] @ rest"
  let ?n = "nat (from_le [l0, l1, l2])"
  let ?data = "\<lparr>buf = ?buf, pos = length pre\<rparr>"
  let ?data1 = "\<lparr>buf = ?buf, pos = length pre + 1\<rparr>"
  let ?data2 = "\<lparr>buf = ?buf, pos = length pre + 4\<rparr>"
  have r1: "read ?data 1 = ([b], ?data1)"
    using read_at [of ?data pre "[b, l0, l1, l2] @ rest" 1] by simp
  have r2: "read ?data1 3 = ([l0, l1, l2], ?data2)"
    using read_at [of ?data1 "pre @ [b]" "[l0, l1, l2] @ rest" 3] by simp
  have "buf ?data2 = (pre @ [b, l0, l1, l2]) @ rest"
    and "pos ?data2 = length (pre @ [b, l0, l1, l2])"
    by simp_all
  then have r3: "read ?data2 (int ?n) =
      (take ?n rest, ?data2\<lparr>pos := length (pre @ [b, l0, l1, l2]) + min ?n (length rest)\<rparr>)"
    by (rule read_at)
  have "int ?n = from_bytes [l0, l1, l2] False"
    using from_le_nonneg [of "[l0, l1, l2]"] by (simp add: from_bytes_def)
  with r1 r2 r3 assms show ?thesis
    by (simp add: Bytes_deserialize_def from_bytes_single)
qed


lemma Bytes_serialize_Inr_length:
  assumes "Bytes_serialize v = Inr out"
  shows "length v < 2 ^ 24"
proof (rule ccontr)
  assume "\<not> length v < 2 ^ 24"
  then have "Bytes_serialize v = Inl OverflowError"
    by (intro Bytes_serialize_overflow) simp
  with assms show False by simp
qed

section \<open>The loop of \<^verbatim>\<open>Vector.deserialize\<close>\<close>

lemma Vector_items_iff:
  "Vector_items n ty data acc = (Inr items, data') \<longleftrightarrow>
     (\<exists>xs. items = acc @ xs \<and> length xs = n \<and> successive_reads ty data xs data')"
proof (induction n arbitrary: data acc)
  case 0
  show ?case by auto
next
  case (Suc n)
  obtain r data1 where ty: "ty data = (r, data1)" by (cases "ty data")
  show ?case
  proof (cases r)
    case (Inl e)
    with ty show ?thesis by (auto simp: length_Suc_conv)
  next
    case (Inr item)
    with ty Suc.IH [of data1 "acc @ [item]"] show ?thesis
      by (auto simp: length_Suc_conv)
  qed
qed

lemma Int_deserialize_exact:
  assumes "length bs = LENGTH_of cls"
  shows "Int_deserialize cls \<lparr>buf = pre @ bs @ rest, pos = length pre\<rparr> is_signed =
           (Inr (from_bytes bs is_signed),
            \<lparr>buf = pre @ bs @ rest, pos = length pre + LENGTH_of cls\<rparr>)"
  using read_exact [of pre bs rest] assms by (simp add: Int_deserialize_def)

section \<open>Reading from a stream that ends early\<close>

lemma read_short:
  assumes "remaining data < n"
  shows "read data (int n) = (drop (pos data) (buf data), data\<lparr>pos := pos data + remaining data\<rparr>)"
  using assms by (simp add: read_def remaining_def Let_def min_def)

lemma read_bounds:
  assumes "read data n = (bs, data')"
  shows "buf data' = buf data \<and> pos data' + remaining data' = pos data + remaining data \<and>
         remaining data' \<le> remaining data \<and> length bs \<le> remaining data"
  using assms by (auto simp: read_def remaining_def Let_def min_def split: if_splits)

lemma Int_deserialize_short:
  assumes "remaining data < LENGTH_of cls"
  shows "Int_deserialize cls data is_signed =
           (Inr (from_bytes (drop (pos data) (buf data)) is_signed),
            data\<lparr>pos := pos data + remaining data\<rparr>)"
  using read_short [OF assms] by (simp add: Int_deserialize_def)

lemma Bool_deserialize_short:
  assumes "remaining data < 4"
  shows "Bool_deserialize data = (Inr False, data\<lparr>pos := pos data + remaining data\<rparr>)"
proof -
  let ?bs = "drop (pos data) (buf data)"
  have len: "length ?bs \<le> 3" using assms by (simp add: remaining_def)
  have "from_le ?bs < 256 ^ length ?bs" by (rule from_le_less)
  also have "\<dots> \<le> 256 ^ 3" using len by (intro power_increasing) simp_all
  finally have "from_bytes ?bs False \<noteq> BOOL_TRUE"
    by (simp add: from_bytes_def BOOL_TRUE_def)
  moreover have "remaining data < LENGTH_of Int32" using assms by simp
  ultimately show ?thesis
    by (simp add: Bool_deserialize_def Int_deserialize_short)
qed

lemma Double_deserialize_short:
  assumes "remaining data < 8"
  shows "Double_deserialize data = (Inl StructError, data\<lparr>pos := pos data + remaining data\<rparr>)"
proof -
  have "length (drop (pos data) (buf data)) \<noteq> 8"
    using assms by (simp add: remaining_def)
  then show ?thesis
    using read_short [OF assms] by (simp add: Double_deserialize_def)
qed

lemma Bytes_deserialize_total:
  "\<exists>payload data'. Bytes_deserialize data = (Inr payload, data') \<and> buf data' = buf data \<and>
     pos data' \<le> pos data + remaining data \<and> length payload \<le> remaining data"
proof -
  obtain b1 data1 where r1: "read data 1 = (b1, data1)" by (cases "read data 1")
  obtain b3 data2 where r2: "read data1 3 = (b3, data2)" by (cases "read data1 3")
  let ?first = "from_bytes b1 False"
  let ?len = "if ?first \<le> 253 then ?first else from_bytes b3 False"
  let ?data = "if ?first \<le> 253 then data1 else data2"
  obtain payload data3 where r3: "read ?data ?len = (payload, data3)"
    by (cases "read ?data ?len")
  have dec: "Bytes_deserialize data = (Inr payload, data3)"
    using r1 r2 r3 by (simp add: Bytes_deserialize_def split: if_splits)
  note b1 = read_bounds [OF r1] and b2 = read_bounds [OF r2] and b3 = read_bounds [OF r3]
  have "buf ?data = buf data \<and> pos ?data + remaining ?data = pos data + remaining data \<and>
        remaining ?data \<le> remaining data"
    using b1 b2 by auto
  with b3 have "buf data3 = buf data \<and> pos data3 \<le> pos data + remaining data \<and>
        length payload \<le> remaining data"
    by auto
  with dec show ?thesis by blast
qed

lemma Vector_deserialize_short:
  assumes "remaining data < 4"
  shows "Vector_deserialize data ty = (Inr [], data\<lparr>pos := pos data + remaining data\<rparr>)"
proof -
  let ?data1 = "data\<lparr>pos := pos data + remaining data\<rparr>"
  have r1: "Int_deserialize Int32 data True =
              (Inr (from_bytes (drop (pos data) (buf data)) True), ?data1)"
    using assms by (intro Int_deserialize_short) simp
  have rem: "remaining ?data1 = 0" by (simp add: remaining_def)
  then have "remaining ?data1 < LENGTH_of Int32" by simp
  then have "Int_deserialize Int32 ?data1 True =
              (Inr (from_bytes (drop (pos ?data1) (buf ?data1)) True),
               ?data1\<lparr>pos := pos ?data1 + remaining ?data1\<rparr>)"
    by (rule Int_deserialize_short)
  moreover have "drop (pos ?data1) (buf ?data1) = []" by (simp add: remaining_def)
  ultimately have r2: "Int_deserialize Int32 ?data1 True = (Inr 0, ?data1)"
    using rem by (simp add: from_bytes_def)
  show ?thesis by (simp add: Vector_deserialize_def r1 r2)
qed

lemma read_slice:
  "read data (int n) =
     (take n (drop (pos data) (buf data)), data\<lparr>pos := pos data + min n (remaining data)\<rparr>)"
  by (simp add: read_def remaining_def Let_def min_def)

lemma drop_after_read:
  "drop (pos data + min k (remaining data) + j) (buf data) = drop (pos data + k + j) (buf data)"
  by (simp add: remaining_def min_def)

lemma remaining_after_read:
  "remaining (data\<lparr>pos := pos data + min k (remaining data)\<rparr>) = remaining data - k"
  by (simp add: remaining_def min_def)

lemma pos_after_reads:
  "p + min k r + min m (r - k) = p + min (k + m) (r::nat)"
  by (auto simp: min_def)

lemma Int_deserialize_slice:
  "Int_deserialize cls data is_signed =
     (Inr (from_bytes (take (LENGTH_of cls) (drop (pos data) (buf data))) is_signed),
      data\<lparr>pos := pos data + min (LENGTH_of cls) (remaining data)\<rparr>)"
  by (simp add: Int_deserialize_def read_slice)

lemma Vector_items_Int:
  "Vector_items n (\<lambda>d. Int_deserialize cls d is_signed) data acc =
     (Inr (acc @ map (\<lambda>i. from_bytes
                 (take (LENGTH_of cls) (drop (pos data + LENGTH_of cls * i) (buf data))) is_signed)
               [0..<n]),
      data\<lparr>pos := pos data + min (LENGTH_of cls * n) (remaining data)\<rparr>)"
proof (induction n arbitrary: data acc)
  case 0
  show ?case by simp
next
  case (Suc n)
  let ?L = "LENGTH_of cls"
  let ?data1 = "data\<lparr>pos := pos data + min ?L (remaining data)\<rparr>"
  have slices: "drop (pos ?data1 + ?L * i) (buf ?data1) = drop (pos data + ?L * Suc i) (buf data)"
    for i
    using drop_after_read [of data ?L "?L * i"] by (simp add: add.assoc)
  have final: "?data1\<lparr>pos := pos ?data1 + min (?L * n) (remaining ?data1)\<rparr> =
               data\<lparr>pos := pos data + min (?L * Suc n) (remaining data)\<rparr>"
    using pos_after_reads [of "pos data" ?L "remaining data" "?L * n"]
    by (simp add: remaining_after_read)
  have "Vector_items (Suc n) (\<lambda>d. Int_deserialize cls d is_signed) data acc =
        Vector_items n (\<lambda>d. Int_deserialize cls d is_signed) ?data1
          (acc @ [from_bytes (take ?L (drop (pos data) (buf data))) is_signed])"
    by (simp add: Int_deserialize_slice)
  also have "\<dots> =
      (Inr ((acc @ [from_bytes (take ?L (drop (pos data) (buf data))) is_signed]) @
            map (\<lambda>i. from_bytes (take ?L (drop (pos ?data1 + ?L * i) (buf ?data1))) is_signed)
              [0..<n]),
       ?data1\<lparr>pos := pos ?data1 + min (?L * n) (remaining ?data1)\<rparr>)"
    by (rule Suc.IH)
  also have "\<dots> =
      (Inr (acc @ map (\<lambda>i. from_bytes (take ?L (drop (pos data + ?L * i) (buf data))) is_signed)
                    [0..<Suc n]),
       data\<lparr>pos := pos data + min (?L * Suc n) (remaining data)\<rparr>)"
    by (simp only: slices final map_upt_Suc) simp
  finally show ?case .
qed


lemma Vector_deserialize_header:
  "Vector_deserialize data ty =
     Vector_items (nat (from_bytes (take 4 (drop (pos data + 4) (buf data))) True)) ty
       (data\<lparr>pos := pos data + min 8 (remaining data)\<rparr>) []"
proof -
  let ?data1 = "data\<lparr>pos := pos data + min 4 (remaining data)\<rparr>"
  have r1: "Int_deserialize Int32 data True =
              (Inr (from_bytes (take 4 (drop (pos data) (buf data))) True), ?data1)"
    using Int_deserialize_slice [of Int32 data True] by simp
  have bytes: "drop (pos ?data1) (buf ?data1) = drop (pos data + 4) (buf data)"
    using drop_after_read [of data 4 0] by simp
  have final: "?data1\<lparr>pos := pos ?data1 + min 4 (remaining ?data1)\<rparr> =
               data\<lparr>pos := pos data + min 8 (remaining data)\<rparr>"
    using pos_after_reads [of "pos data" 4 "remaining data" 4]
    by (simp add: remaining_after_read)
  have len: "LENGTH_of Int32 = 4" by simp
  have r2: "Int_deserialize Int32 ?data1 True =
              (Inr (from_bytes (take 4 (drop (pos data + 4) (buf data))) True),
               data\<lparr>pos := pos data + min 8 (remaining data)\<rparr>)"
    using Int_deserialize_slice [of Int32 ?data1 True]
    by (simp only: len bytes final)
  show ?thesis by (simp add: Vector_deserialize_def r1 r2)
qed

lemma Vector_items_error:
  assumes "Vector_items n ty data acc = (Inl e, data')"
  shows "\<exists>d. ty d = (Inl e, data')"
  using assms
proof (induction n arbitrary: data acc)
  case 0
  then show ?case by simp
next
  case (Suc n)
  obtain r data1 where ty: "ty data = (r, data1)" by (cases "ty data")
  show ?case
  proof (cases r)
    case (Inl e')
    with ty Suc.prems show ?thesis by auto
  next
    case (Inr item)
    with ty Suc.prems have "Vector_items n ty data1 (acc @ [item]) = (Inl e, data')" by simp
    then show ?thesis by (rule Suc.IH)
  qed
qed

lemma Bytes_deserialize_empty:
  "Bytes_deserialize \<lparr>buf = pre, pos = length pre\<rparr> = (Inr [], \<lparr>buf = pre, pos = length pre\<rparr>)"
  by (simp add: Bytes_deserialize_def read_def remaining_def from_bytes_def)

lemma Bytes_deserialize_cut_length:
  assumes "253 < uint b" and "length ls < 3"
  shows "Bytes_deserialize \<lparr>buf = pre @ [b] @ ls, pos = length pre\<rparr> =
           (Inr [], \<lparr>buf = pre @ [b] @ ls, pos = length pre + 1 + length ls\<rparr>)"
proof -
  let ?buf = "pre @ [b] @ ls"
  let ?data = "\<lparr>buf = ?buf, pos = length pre\<rparr>"
  let ?data1 = "\<lparr>buf = ?buf, pos = length pre + 1\<rparr>"
  let ?data2 = "\<lparr>buf = ?buf, pos = length pre + 1 + length ls\<rparr>"
  have r1: "read ?data 1 = ([b], ?data1)"
    using read_at [of ?data pre "[b] @ ls" 1] by simp
  have r2: "read ?data1 3 = (ls, ?data2)"
    using read_at [of ?data1 "pre @ [b]" ls 3] assms(2) by simp
  have "read ?data2 (int (nat (from_bytes ls False))) = ([], ?data2)"
    using read_at [of ?data2 "pre @ [b] @ ls" "[]" "nat (from_bytes ls False)"] by simp
  moreover have "int (nat (from_bytes ls False)) = from_bytes ls False"
    using from_le_nonneg [of ls] by (simp add: from_bytes_def)
  ultimately have "read ?data2 (from_bytes ls False) = ([], ?data2)" by simp
  with r1 r2 assms(1) show ?thesis
    by (simp add: Bytes_deserialize_def from_bytes_single)
qed


lemma String_deserialize_of_Bytes:
  assumes "Bytes_deserialize data = (Inr payload, data')"
  shows "String_deserialize decode data = (Inr (decode payload), data')"
  using assms by (simp add: String_deserialize_def)

lemma Bytes_deserialize_cut_short:
  assumes "uint b \<le> 253" and "length rest < unat b"
  shows "Bytes_deserialize \<lparr>buf = pre @ [b] @ rest, pos = length pre\<rparr> =
           (Inr rest, \<lparr>buf = pre @ [b] @ rest, pos = length pre + 1 + length rest\<rparr>)"
  using Bytes_deserialize_short [OF assms(1), of pre rest] assms(2) by simp

lemma Bytes_deserialize_cut_long:
  assumes "253 < uint c" and "int (length rest) < from_bytes [l0, l1, l2] False"
  shows "Bytes_deserialize \<lparr>buf = pre @ [c, l0, l1, l2] @ rest, pos = length pre\<rparr> =
           (Inr rest, \<lparr>buf = pre @ [c, l0, l1, l2] @ rest, pos = length pre + 4 + length rest\<rparr>)"
proof -
  have "length rest < nat (from_le [l0, l1, l2])"
    using assms(2) by (simp add: from_bytes_def)
  then have "take (nat (from_le [l0, l1, l2])) rest = rest"
    and "min (nat (from_le [l0, l1, l2])) (length rest) = length rest"
    by simp_all
  with Bytes_deserialize_long [OF assms(1), of pre l0 l1 l2 rest] show ?thesis
    by (simp only:)
qed

lemma Vector_deserialize_iff:
  "Vector_deserialize data ty = (Inr items, data') \<longleftrightarrow>
     length items = nat (from_bytes (take 4 (drop (pos data + 4) (buf data))) True) \<and>
     successive_reads ty (data\<lparr>pos := pos data + min 8 (remaining data)\<rparr>) items data'"
  by (simp add: Vector_deserialize_header Vector_items_iff)

lemma Vector_deserialize_cut_header:
  assumes "remaining data < 8"
  shows "Vector_deserialize data ty = (Inr items, data') \<longleftrightarrow>
     length items = nat (from_bytes (drop (pos data + 4) (buf data)) True) \<and>
     successive_reads ty (data\<lparr>pos := pos data + remaining data\<rparr>) items data'"
proof -
  have "length (drop (pos data + 4) (buf data)) \<le> 4"
    using assms by (simp add: remaining_def)
  then have "take 4 (drop (pos data + 4) (buf data)) = drop (pos data + 4) (buf data)"
    by simp
  moreover have "min 8 (remaining data) = remaining data"
    using assms by simp
  ultimately show ?thesis
    using Vector_deserialize_iff [of data ty items data'] by (simp only:)
qed

lemma Vector_deserialize_error:
  assumes "Vector_deserialize data ty = (Inl e, data')"
  shows "\<exists>d. ty d = (Inl e, data')"
  using assms by (simp only: Vector_deserialize_header) (rule Vector_items_error)

lemma Vector_deserialize_Int:
  "Vector_deserialize data (\<lambda>d. Int_deserialize cls d is_signed) =
     (Inr (map (\<lambda>i. from_bytes
                 (take (LENGTH_of cls) (drop (pos data + 8 + LENGTH_of cls * i) (buf data)))
                 is_signed)
            [0..<nat (from_bytes (take 4 (drop (pos data + 4) (buf data))) True)]),
      data\<lparr>pos := pos data +
        min (8 + LENGTH_of cls * nat (from_bytes (take 4 (drop (pos data + 4) (buf data))) True))
          (remaining data)\<rparr>)"
proof -
  let ?L = "LENGTH_of cls"
  let ?n = "nat (from_bytes (take 4 (drop (pos data + 4) (buf data))) True)"
  let ?data8 = "data\<lparr>pos := pos data + min 8 (remaining data)\<rparr>"
  have slices: "drop (pos ?data8 + ?L * i) (buf ?data8) = drop (pos data + 8 + ?L * i) (buf data)"
    for i
    using drop_after_read [of data 8 "?L * i"] by simp
  have final: "?data8\<lparr>pos := pos ?data8 + min (?L * ?n) (remaining ?data8)\<rparr> =
               data\<lparr>pos := pos data + min (8 + ?L * ?n) (remaining data)\<rparr>"
    using pos_after_reads [of "pos data" 8 "remaining data" "?L * ?n"]
    by (simp add: remaining_after_read)
  have "Vector_deserialize data (\<lambda>d. Int_deserialize cls d is_signed) =
          Vector_items ?n (\<lambda>d. Int_deserialize cls d is_signed) ?data8 []"
    by (rule Vector_deserialize_header)
  also have "\<dots> =
      (Inr ([] @ map (\<lambda>i. from_bytes (take ?L (drop (pos ?data8 + ?L * i) (buf ?data8))) is_signed)
                   [0..<?n]),
       ?data8\<lparr>pos := pos ?data8 + min (?L * ?n) (remaining ?data8)\<rparr>)"
    by (rule Vector_items_Int)
  finally show ?thesis by (simp only: slices final append_Nil)
qed

section \<open>The claims\<close>

text \<open>
  C9: serialising the 4-byte integer \<open>-1\<close> with \<^verbatim>\<open>signed=True\<close> gives the bytes
  FF FF FF FF, and serialising the byte string \<^verbatim>\<open>b"ab"\<close> gives the bytes 02 61 62 00.
\<close>

theorem serialize_examples:
  "Int_serialize Int32 (- 1) True = Inr [0xFF, 0xFF, 0xFF, 0xFF] \<and>
   Bytes_serialize [0x61, 0x62] = Inr [0x02, 0x61, 0x62, 0x00]"
  by (simp add: Int_serialize_def to_bytes_def Bytes_serialize_def to_le_numeral
      replicate_numeral)

text \<open>
  C4: for each of the four widths and every integer \<open>x\<close> in the two's-complement range
  of the width (\<^verbatim>\<open>signed=True\<close>) or in its unsigned range (\<^verbatim>\<open>signed=False\<close>),
  \<^verbatim>\<open>serialize\<close> returns as many bytes as the width, and \<^verbatim>\<open>deserialize\<close> with the same
  flag on a stream positioned at these bytes returns \<open>x\<close> and moves the position past
  them.
\<close>

theorem Int_round_trip:
  assumes "if is_signed
           then - (2 ^ (8 * LENGTH_of cls - 1)) \<le> x \<and> x < 2 ^ (8 * LENGTH_of cls - 1)
           else 0 \<le> x \<and> x < 2 ^ (8 * LENGTH_of cls)"
  shows "\<exists>bs. Int_serialize cls x is_signed = Inr bs \<and> length bs = LENGTH_of cls \<and>
           Int_deserialize cls \<lparr>buf = pre @ bs @ rest, pos = length pre\<rparr> is_signed =
             (Inr x, \<lparr>buf = pre @ bs @ rest, pos = length pre + LENGTH_of cls\<rparr>)"
proof -
  let ?n = "LENGTH_of cls"
  let ?bs = "to_le ?n x"
  have two: "(2::int) ^ (8 * ?n) = 2 * 2 ^ (8 * ?n - 1)"
    using LENGTH_of_pos [of cls] by (cases "8 * ?n") simp_all
  have ser: "Int_serialize cls x is_signed = Inr ?bs"
    using assms two by (simp add: Int_serialize_def to_bytes_def split: if_splits)
  have val: "from_bytes ?bs is_signed = x"
  proof (cases is_signed)
    case True
    with assms two show ?thesis by (simp add: from_bytes_to_le_signed)
  next
    case False
    with assms show ?thesis by (simp add: from_bytes_to_le_unsigned)
  qed
  have "Int_deserialize cls \<lparr>buf = pre @ ?bs @ rest, pos = length pre\<rparr> is_signed =
          (Inr x, \<lparr>buf = pre @ ?bs @ rest, pos = length pre + ?n\<rparr>)"
    using read_exact [of pre ?bs rest] val
    by (simp add: Int_deserialize_def length_to_le)
  with ser show ?thesis by (simp add: length_to_le)
qed

theorem Int_round_trip_witness:
  "(- (2 ^ (8 * LENGTH_of Long - 1)) \<le> (- 2 :: int) \<and> (- 2 :: int) < 2 ^ (8 * LENGTH_of Long - 1)) \<and>
   (\<exists>bs. Int_serialize Long (- 2) True = Inr bs \<and> length bs = LENGTH_of Long \<and>
      Int_deserialize Long \<lparr>buf = [7] @ bs @ [9], pos = length [7 :: byte]\<rparr> True =
        (Inr (- 2), \<lparr>buf = [7] @ bs @ [9], pos = length [7 :: byte] + LENGTH_of Long\<rparr>))"
  using Int_round_trip [of True Long "- 2" "[7]" "[9]"] by simp

text \<open>
  C5: \<^verbatim>\<open>Bool.serialize\<close> emits the 4 bytes of \<open>0x997275b5\<close> for true and those of
  \<open>0xbc799737\<close> for false, least significant byte first. \<^verbatim>\<open>Bool.deserialize\<close> on a
  stream with 4 bytes at its position returns, without raising, whether these bytes
  read as an unsigned little-endian integer are \<open>0x997275b5\<close>, that is whether they are
  B5 75 72 99: the bytes of the false constant and every other 4 bytes give false.
\<close>

theorem Bool_codec:
  assumes "length bs = 4"
  shows "Bool_serialize v = Inr (if v then [0xB5, 0x75, 0x72, 0x99] else [0x37, 0x97, 0x79, 0xBC]) \<and>
         Bool_deserialize \<lparr>buf = pre @ bs @ rest, pos = length pre\<rparr> =
           (Inr (from_bytes bs False = 0x997275b5),
            \<lparr>buf = pre @ bs @ rest, pos = length pre + 4\<rparr>) \<and>
         (from_bytes bs False = 0x997275b5 \<longleftrightarrow> bs = [0xB5, 0x75, 0x72, 0x99])"
proof (intro conjI)
  show "Bool_serialize v = Inr (if v then [0xB5, 0x75, 0x72, 0x99] else [0x37, 0x97, 0x79, 0xBC])"
    by (simp add: Bool_serialize_def BOOL_TRUE_def BOOL_FALSE_def Int_serialize_def
        to_bytes_def to_le_numeral)
  show "Bool_deserialize \<lparr>buf = pre @ bs @ rest, pos = length pre\<rparr> =
          (Inr (from_bytes bs False = 0x997275b5),
           \<lparr>buf = pre @ bs @ rest, pos = length pre + 4\<rparr>)"
    using read_exact [of pre bs rest] assms
    by (simp add: Bool_deserialize_def Int_deserialize_def BOOL_TRUE_def)
  have "from_le bs = 0x997275b5 \<longleftrightarrow> bs = to_le (length bs) 0x997275b5"
    using assms by (intro from_le_eq_iff) simp_all
  with assms show "from_bytes bs False = 0x997275b5 \<longleftrightarrow> bs = [0xB5, 0x75, 0x72, 0x99]"
    by (simp add: from_bytes_def to_le_numeral)
qed

theorem Bool_codec_witness:
  "length [0x37, 0x97, 0x79, 0xBC :: byte] = 4 \<and>
   Bool_serialize False = Inr [0x37, 0x97, 0x79, 0xBC] \<and>
   Bool_deserialize \<lparr>buf = [0x37, 0x97, 0x79, 0xBC], pos = 0\<rparr> =
     (Inr False, \<lparr>buf = [0x37, 0x97, 0x79, 0xBC], pos = 4\<rparr>)"
  using Bool_codec [of "[0x37, 0x97, 0x79, 0xBC]" False "[]" "[]"] by simp

text \<open>
  C3, as stated, fails: a payload of \<open>2 ^ 24\<close> bytes has no output, since its length
  does not fit the 3 bytes of the long prefix and \<^verbatim>\<open>to_bytes\<close> raises OverflowError.
\<close>

theorem Bytes_serialize_oversize_counterexample:
  "\<not> (\<exists>out. Bytes_serialize (replicate 16777216 0) = Inr out \<and> length out mod 4 = 0)"
proof -
  have "(2::nat) ^ 24 \<le> length (replicate 16777216 (0 :: byte))"
    by simp
  then have "Bytes_serialize (replicate 16777216 0) = Inl OverflowError"
    by (rule Bytes_serialize_overflow)
  then show ?thesis by simp
qed

text \<open>
  C3, amended: for every payload of fewer than \<open>2 ^ 24\<close> bytes \<^verbatim>\<open>Bytes.serialize\<close>
  returns, and the length of its output (prefix, payload and padding) is divisible
  by 4.
\<close>

theorem Bytes_serialize_aligned:
  assumes "length v < 2 ^ 24"
  shows "\<exists>out. Bytes_serialize v = Inr out \<and> length out mod 4 = 0"
proof (cases "length v \<le> 253")
  case True
  define p where "p = 1 + length v"
  define out where
    "out = [word_of_nat (length v) :: byte] @ v @ replicate ((4 - p mod 4) mod 4) 0"
  have "Bytes_serialize v = Inr out"
    unfolding out_def p_def using True by (rule Bytes_serialize_short)
  moreover have "length out = p + (4 - p mod 4) mod 4"
    by (simp add: out_def p_def)
  then have "length out mod 4 = 0"
    by (simp only: padding_aligns)
  ultimately show ?thesis by auto
next
  case False
  define p where "p = 4 + length v"
  define out where
    "out = [0xFE :: byte] @ to_le 3 (int (length v)) @ v @ replicate ((4 - p mod 4) mod 4) 0"
  have "Bytes_serialize v = Inr out"
    unfolding out_def p_def using False assms by (intro Bytes_serialize_long) simp_all
  moreover have "length out = p + (4 - p mod 4) mod 4"
    by (simp add: out_def p_def length_to_le)
  then have "length out mod 4 = 0"
    by (simp only: padding_aligns)
  ultimately show ?thesis by auto
qed

theorem Bytes_serialize_aligned_witness:
  "length [0x61, 0x62, 0x63, 0x64, 0x65 :: byte] < 2 ^ 24 \<and>
   (\<exists>out. Bytes_serialize [0x61, 0x62, 0x63, 0x64, 0x65] = Inr out \<and> length out mod 4 = 0)"
  using Bytes_serialize_aligned [of "[0x61, 0x62, 0x63, 0x64, 0x65]"] by simp

text \<open>
  C6: a payload of 253 bytes is serialised as the length byte \<open>0xFD\<close>, the payload and
  two zero bytes; a payload of 254 bytes as the byte \<open>0xFE\<close>, the length 254 in 3 bytes,
  least significant first, the payload and two zero bytes. Both outputs have a length
  divisible by 4.
\<close>

theorem Bytes_serialize_boundary:
  assumes "length a = 253" and "length b = 254"
  shows "Bytes_serialize a = Inr ([0xFD] @ a @ [0, 0]) \<and>
         length ([0xFD] @ a @ [0, 0 :: byte]) mod 4 = 0 \<and>
         Bytes_serialize b = Inr ([0xFE] @ [0xFE, 0, 0] @ b @ [0, 0]) \<and>
         length ([0xFE] @ [0xFE, 0, 0] @ b @ [0, 0 :: byte]) mod 4 = 0"
proof -
  have "Bytes_serialize a = Inr ([0xFD] @ a @ [0, 0])"
    using assms(1) by (simp add: Bytes_serialize_short replicate_numeral)
  moreover have "Bytes_serialize b = Inr ([0xFE] @ [0xFE, 0, 0] @ b @ [0, 0])"
    using assms(2) by (simp add: Bytes_serialize_long to_le_numeral replicate_numeral)
  ultimately show ?thesis using assms by simp
qed

theorem Bytes_serialize_boundary_witness:
  "length (replicate 253 (0x41 :: byte)) = 253 \<and> length (replicate 254 (0x42 :: byte)) = 254 \<and>
   Bytes_serialize (replicate 253 0x41) = Inr ([0xFD] @ replicate 253 0x41 @ [0, 0]) \<and>
   Bytes_serialize (replicate 254 0x42) = Inr ([0xFE] @ [0xFE, 0, 0] @ replicate 254 0x42 @ [0, 0])"
  using Bytes_serialize_boundary [of "replicate 253 0x41" "replicate 254 0x42"] by simp

text \<open>
  C10: \<^verbatim>\<open>Bytes.deserialize\<close> takes every first byte above 253, that is \<open>0xFF\<close> as well
  as \<open>0xFE\<close>, for the long form: it reads the next 3 bytes as the little-endian
  unsigned length \<open>n\<close> and returns the next \<open>n\<close> bytes (fewer when the stream ends
  before). An input that begins with \<open>0xFF\<close> gives the result and the final position
  of the same input with \<open>0xFE\<close> in its place.
\<close>

theorem Bytes_deserialize_any_byte_above_253:
  assumes "253 < uint b"
  shows "Bytes_deserialize \<lparr>buf = pre @ [b, l0, l1, l2] @ rest, pos = length pre\<rparr> =
           (Inr (take (nat (uint l0 + 256 * uint l1 + 65536 * uint l2)) rest),
            \<lparr>buf = pre @ [b, l0, l1, l2] @ rest,
             pos = length pre + 4 +
                   min (nat (uint l0 + 256 * uint l1 + 65536 * uint l2)) (length rest)\<rparr>) \<and>
         fst (Bytes_deserialize \<lparr>buf = pre @ [0xFF, l0, l1, l2] @ rest, pos = length pre\<rparr>) =
           fst (Bytes_deserialize \<lparr>buf = pre @ [0xFE, l0, l1, l2] @ rest, pos = length pre\<rparr>) \<and>
         pos (snd (Bytes_deserialize \<lparr>buf = pre @ [0xFF, l0, l1, l2] @ rest, pos = length pre\<rparr>)) =
           pos (snd (Bytes_deserialize \<lparr>buf = pre @ [0xFE, l0, l1, l2] @ rest, pos = length pre\<rparr>))"
proof -
  have n: "from_le [l0, l1, l2] = uint l0 + 256 * uint l1 + 65536 * uint l2"
    by simp
  have "(253::int) < uint (0xFF :: byte)" and "(253::int) < uint (0xFE :: byte)"
    by simp_all
  then show ?thesis
    using assms by (simp only: Bytes_deserialize_long n fst_conv snd_conv) simp
qed

theorem Bytes_deserialize_any_byte_above_253_witness:
  "253 < uint (0xFF :: byte) \<and>
   Bytes_deserialize \<lparr>buf = [0xFF, 2, 0, 0, 5, 6, 0, 0], pos = 0\<rparr> =
     (Inr [5, 6], \<lparr>buf = [0xFF, 2, 0, 0, 5, 6, 0, 0], pos = 6\<rparr>)"
  using Bytes_deserialize_any_byte_above_253 [of "0xFF" "[]" 2 0 0 "[5, 6, 0, 0]"] by simp

text \<open>
  C7: on a stream positioned at the output of \<^verbatim>\<open>Bytes.serialize\<close> for a payload \<open>v\<close>,
  \<^verbatim>\<open>Bytes.deserialize\<close> returns \<open>v\<close> and moves the position by the length of the prefix
  (1 or 4) plus the length of \<open>v\<close>, no further: the zero bytes of the padding, and
  whatever follows them, are left unread.
\<close>

theorem Bytes_deserialize_leaves_padding:
  assumes "Bytes_serialize v = Inr out"
  shows "Bytes_deserialize \<lparr>buf = pre @ out @ rest, pos = length pre\<rparr> =
           (Inr v, \<lparr>buf = pre @ out @ rest,
                   pos = length pre + (if length v \<le> 253 then 1 else 4) + length v\<rparr>) \<and>
         drop (length pre + (if length v \<le> 253 then 1 else 4) + length v) (pre @ out @ rest) =
           replicate ((4 - ((if length v \<le> 253 then 1 else 4) + length v) mod 4) mod 4) 0 @ rest"
proof (cases "length v \<le> 253")
  case True
  define b :: byte where "b = word_of_nat (length v)"
  define padding :: "byte list" where
    "padding = replicate ((4 - (1 + length v) mod 4) mod 4) 0"
  have out: "out = [b] @ v @ padding"
    using assms True by (simp add: Bytes_serialize_short b_def padding_def)
  have ub: "unat b = length v"
    using True by (simp add: b_def unat_of_nat)
  have "uint b = int (unat b)" by simp
  with ub True have "uint b \<le> 253" by simp
  then have "Bytes_deserialize \<lparr>buf = pre @ [b] @ (v @ padding @ rest), pos = length pre\<rparr> =
           (Inr (take (unat b) (v @ padding @ rest)),
            \<lparr>buf = pre @ [b] @ (v @ padding @ rest),
             pos = length pre + 1 + min (unat b) (length (v @ padding @ rest))\<rparr>)"
    by (rule Bytes_deserialize_short)
  with True show ?thesis by (simp add: out ub padding_def)
next
  case False
  have small: "int (length v) < 2 ^ 24"
    using Bytes_serialize_Inr_length [OF assms] by simp
  define padding :: "byte list" where
    "padding = replicate ((4 - (4 + length v) mod 4) mod 4) 0"
  obtain l0 l1 l2 where l: "to_le 3 (int (length v)) = [l0, l1, l2]"
    by (simp add: to_le_numeral)
  have out: "out = [0xFE, l0, l1, l2] @ v @ padding"
    using assms False small by (simp add: Bytes_serialize_long padding_def l)
  have "from_le [l0, l1, l2] = int (length v) mod 256 ^ 3"
    using from_le_to_le [of 3 "int (length v)"] by (simp only: l)
  with small have n: "nat (from_le [l0, l1, l2]) = length v" by simp
  have "(253::int) < uint (0xFE :: byte)" by simp
  then have "Bytes_deserialize
               \<lparr>buf = pre @ [0xFE, l0, l1, l2] @ (v @ padding @ rest), pos = length pre\<rparr> =
           (Inr (take (nat (from_le [l0, l1, l2])) (v @ padding @ rest)),
            \<lparr>buf = pre @ [0xFE, l0, l1, l2] @ (v @ padding @ rest),
             pos = length pre + 4 +
                   min (nat (from_le [l0, l1, l2])) (length (v @ padding @ rest))\<rparr>)"
    by (rule Bytes_deserialize_long)
  then have "Bytes_deserialize
               \<lparr>buf = pre @ [0xFE, l0, l1, l2] @ (v @ padding @ rest), pos = length pre\<rparr> =
           (Inr (take (length v) (v @ padding @ rest)),
            \<lparr>buf = pre @ [0xFE, l0, l1, l2] @ (v @ padding @ rest),
             pos = length pre + 4 + min (length v) (length (v @ padding @ rest))\<rparr>)"
    by (simp only: n)
  then have dec: "Bytes_deserialize \<lparr>buf = pre @ out @ rest, pos = length pre\<rparr> =
           (Inr v, \<lparr>buf = pre @ out @ rest, pos = length pre + 4 + length v\<rparr>)"
    by (simp add: out)
  let ?xs = "pre @ [0xFE, l0, l1, l2] @ v"
  have "drop (length ?xs) (?xs @ (padding @ rest)) = padding @ rest"
    by (metis append_eq_conv_conj)
  then have "drop (length pre + 4 + length v) (pre @ out @ rest) = padding @ rest"
    by (simp add: out)
  with False dec show ?thesis by (simp add: padding_def)
qed

theorem Bytes_deserialize_leaves_padding_witness:
  "Bytes_serialize [0x61, 0x62] = Inr [2, 0x61, 0x62, 0] \<and>
   Bytes_deserialize \<lparr>buf = [7] @ [2, 0x61, 0x62, 0] @ [9], pos = length [7 :: byte]\<rparr> =
     (Inr [0x61, 0x62], \<lparr>buf = [7] @ [2, 0x61, 0x62, 0] @ [9], pos = 4\<rparr>) \<and>
   drop 4 ([7] @ [2, 0x61, 0x62, 0] @ [9 :: byte]) = [0, 9]"
proof -
  have ser: "Bytes_serialize [0x61, 0x62] = Inr [2, 0x61, 0x62, 0]"
    by (simp add: Bytes_serialize_def replicate_numeral)
  show ?thesis
    using ser Bytes_deserialize_leaves_padding [OF ser, of "[7]" "[9]"]
    by (simp add: replicate_numeral)
qed

text \<open>
  C8: \<^verbatim>\<open>String.serialize\<close> is not a pure read of its object. On an object whose field
  holds a text that UTF-8 can encode, the call returns what \<^verbatim>\<open>Bytes.serialize\<close> returns
  for the encoding and leaves the encoding, a \<^verbatim>\<open>bytes\<close>, in the field, in place of the
  text; a second call on the object then raises AttributeError.
\<close>

theorem String_serialize_overwrites_value:
  assumes "tl_value self = Str s" and "encode_utf8 s = Inr b"
  shows "String_serialize self = (Bytes_serialize b, self\<lparr>tl_value := Bytes b\<rparr>) \<and>
         tl_value (snd (String_serialize self)) = Bytes b \<and>
         tl_value (snd (String_serialize self)) \<noteq> tl_value self \<and>
         fst (String_serialize (snd (String_serialize self))) = Inl AttributeError"
  using assms by (simp add: String_serialize_def)

theorem String_serialize_overwrites_value_witness:
  "tl_value \<lparr>tl_value = Str [0x61, 0xE9]\<rparr> = Str [0x61, 0xE9] \<and>
   encode_utf8 [0x61, 0xE9] = Inr [0x61, 0xC3, 0xA9] \<and>
   String_serialize \<lparr>tl_value = Str [0x61, 0xE9]\<rparr> =
     (Inr [3, 0x61, 0xC3, 0xA9], \<lparr>tl_value = Bytes [0x61, 0xC3, 0xA9]\<rparr>)"
proof -
  have enc: "encode_utf8 [0x61, 0xE9] = Inr [0x61, 0xC3, 0xA9]"
    by (simp add: utf8_char_def)
  have ser: "Bytes_serialize [0x61, 0xC3, 0xA9] = Inr [3, 0x61, 0xC3, 0xA9]"
    by (simp add: Bytes_serialize_def)
  show ?thesis
    using enc ser
      String_serialize_overwrites_value [of "\<lparr>tl_value = Str [0x61, 0xE9]\<rparr>" "[0x61, 0xE9]", OF _ enc]
    by simp
qed

text \<open>
  C2, as stated, fails: the count is read with the default \<^verbatim>\<open>signed=True\<close>. The count
  bytes FF FF FF FF are the unsigned integer 4294967295, but the call returns the
  empty list: the count read is \<open>-1\<close> and \<^verbatim>\<open>range(-1)\<close> is empty.
\<close>

theorem Vector_deserialize_unsigned_count_counterexample:
  "from_bytes [0xFF, 0xFF, 0xFF, 0xFF] False = 4294967295 \<and>
   Vector_deserialize \<lparr>buf = [0x15, 0xC4, 0xB5, 0x1C, 0xFF, 0xFF, 0xFF, 0xFF], pos = 0\<rparr>
     (\<lambda>d. Int_deserialize Int32 d True) =
     (Inr [], \<lparr>buf = [0x15, 0xC4, 0xB5, 0x1C, 0xFF, 0xFF, 0xFF, 0xFF], pos = 8\<rparr>)"
  by (simp add: Vector_deserialize_def from_bytes_def Int_deserialize_def read_def remaining_def)

text \<open>
  C2, amended: on a stream with at least 8 bytes at its position, \<^verbatim>\<open>Vector.deserialize\<close>
  reads the 4 bytes of the constructor id, on which the result does not depend, and
  reads the count from the next 4 bytes as a signed little-endian integer. It returns
  a list exactly when the element's \<^verbatim>\<open>deserialize\<close>, called once for each element from
  the position after the count on, returns these elements in their order; the list
  then has \<open>count\<close> elements, none for a negative \<open>count\<close>.
\<close>

theorem Vector_deserialize_signed_count:
  assumes "length ctor = 4" and "length cnt = 4"
  shows "Vector_deserialize \<lparr>buf = pre @ ctor @ cnt @ body, pos = length pre\<rparr> ty =
           (Inr items, data') \<longleftrightarrow>
         length items = nat (from_bytes cnt True) \<and>
         successive_reads ty \<lparr>buf = pre @ ctor @ cnt @ body, pos = length pre + 8\<rparr> items data'"
proof -
  let ?buf = "pre @ ctor @ cnt @ body"
  have r1: "Int_deserialize Int32 \<lparr>buf = ?buf, pos = length pre\<rparr> True =
              (Inr (from_bytes ctor True), \<lparr>buf = ?buf, pos = length pre + 4\<rparr>)"
    using Int_deserialize_exact [of ctor Int32 pre "cnt @ body" True] assms(1) by simp
  have r2: "Int_deserialize Int32 \<lparr>buf = ?buf, pos = length pre + 4\<rparr> True =
              (Inr (from_bytes cnt True), \<lparr>buf = ?buf, pos = length pre + 8\<rparr>)"
    using Int_deserialize_exact [of cnt Int32 "pre @ ctor" body True] assms by simp
  have "Vector_deserialize \<lparr>buf = ?buf, pos = length pre\<rparr> ty =
          Vector_items (nat (from_bytes cnt True)) ty \<lparr>buf = ?buf, pos = length pre + 8\<rparr> []"
    by (simp add: Vector_deserialize_def r1 r2)
  then show ?thesis by (simp add: Vector_items_iff) 
qed

theorem Vector_deserialize_signed_count_witness:
  "length [0x15, 0xC4, 0xB5, 0x1C :: byte] = 4 \<and> length [2, 0, 0, 0 :: byte] = 4 \<and>
   Vector_deserialize
     \<lparr>buf = [] @ [0x15, 0xC4, 0xB5, 0x1C] @ [2, 0, 0, 0] @ [1, 0, 0, 0, 0xFE, 0xFF, 0xFF, 0xFF, 9],
      pos = length ([] :: byte list)\<rparr>
     (\<lambda>d. Int_deserialize Int32 d True) =
     (Inr [1, - 2],
      \<lparr>buf = [] @ [0x15, 0xC4, 0xB5, 0x1C] @ [2, 0, 0, 0] @ [1, 0, 0, 0, 0xFE, 0xFF, 0xFF, 0xFF, 9],
       pos = 16\<rparr>)"
  using Vector_deserialize_signed_count [of "[0x15, 0xC4, 0xB5, 0x1C]" "[2, 0, 0, 0]" "[]"
      "[1, 0, 0, 0, 0xFE, 0xFF, 0xFF, 0xFF, 9]" "\<lambda>d. Int_deserialize Int32 d True" "[1, - 2]"
      "\<lparr>buf = [0x15, 0xC4, 0xB5, 0x1C, 2, 0, 0, 0, 1, 0, 0, 0, 0xFE, 0xFF, 0xFF, 0xFF, 9], pos = 16\<rparr>"]
  by (simp add: from_bytes_def Int_deserialize_def read_def remaining_def)

text \<open>
  C1, as stated, fails: on a stream with 2 bytes left, fewer than the 4 of its width,
  \<^verbatim>\<open>Int.deserialize\<close> raises nothing. It returns 513, the integer of the 2 bytes.
\<close>

theorem Int_deserialize_truncated_counterexample:
  "remaining \<lparr>buf = [1, 2], pos = 0\<rparr> < LENGTH_of Int32 \<and>
   Int_deserialize Int32 \<lparr>buf = [1, 2], pos = 0\<rparr> True =
     (Inr 513, \<lparr>buf = [1, 2], pos = 2\<rparr>)"
  by (simp add: Int_deserialize_def read_def remaining_def from_bytes_def)

text \<open>
  C1, amended: \<^verbatim>\<open>deserialize\<close> on a stream with fewer bytes left than the type needs
  never reads past the end of the buffer and raises no error of its own; it decodes
  the bytes that are left.
  \<^item> With fewer bytes left than the width, the integer types return the integer of the
    bytes that are left (0 when none is) and leave the position at the end.
  \<^item> With fewer than 4 bytes left \<^verbatim>\<open>Bool\<close> returns false.
  \<^item> With fewer than 8 bytes left \<^verbatim>\<open>Double\<close> raises \<^verbatim>\<open>struct.error\<close>.
  \<^item> \<^verbatim>\<open>Bytes\<close> returns the empty payload when no byte is left or when the 3 length bytes
    of the long form are cut short, and the payload bytes that are left when fewer
    than the length in the prefix follow it. \<^verbatim>\<open>String\<close> returns the decoding of what
    \<^verbatim>\<open>Bytes\<close> returns. Both return on every stream, the position not past the end.
  \<^item> \<^verbatim>\<open>Vector\<close> reads the count from the bytes that are left at offsets 4 to 7, as a
    signed integer (0 when none is left), and calls the element's \<^verbatim>\<open>deserialize\<close> that
    many times from the position after the header, or from the end when the header is
    cut short. It raises only what an element's \<^verbatim>\<open>deserialize\<close> raises. With integer
    elements it returns \<open>count\<close> integers on every stream, each of the bytes that are
    left at its offset, so 0 for an element that is cut off whole.
\<close>

theorem truncated_deserialize_no_underrun:
  "(remaining data < LENGTH_of cls \<longrightarrow>
      Int_deserialize cls data is_signed =
        (Inr (from_bytes (drop (pos data) (buf data)) is_signed),
         data\<lparr>pos := pos data + remaining data\<rparr>)) \<and>
   (remaining data < 4 \<longrightarrow>
      Bool_deserialize data = (Inr False, data\<lparr>pos := pos data + remaining data\<rparr>)) \<and>
   (remaining data < 8 \<longrightarrow>
      Double_deserialize data =
        (Inl StructError, data\<lparr>pos := pos data + remaining data\<rparr>)) \<and>
   (\<exists>payload data'.
      Bytes_deserialize data = (Inr payload, data') \<and>
      String_deserialize decode data = (Inr (decode payload), data') \<and>
      buf data' = buf data \<and> pos data' \<le> pos data + remaining data \<and>
      length payload \<le> remaining data) \<and>
   (remaining data < 4 \<longrightarrow>
      Vector_deserialize data ty = (Inr [], data\<lparr>pos := pos data + remaining data\<rparr>)) \<and>
   (Bytes_deserialize \<lparr>buf = pre, pos = length pre\<rparr> =
      (Inr [], \<lparr>buf = pre, pos = length pre\<rparr>)) \<and>
   (uint b \<le> 253 \<and> length rest < unat b \<longrightarrow>
      Bytes_deserialize \<lparr>buf = pre @ [b] @ rest, pos = length pre\<rparr> =
        (Inr rest, \<lparr>buf = pre @ [b] @ rest, pos = length pre + 1 + length rest\<rparr>)) \<and>
   (253 < uint c \<and> length ls < 3 \<longrightarrow>
      Bytes_deserialize \<lparr>buf = pre @ [c] @ ls, pos = length pre\<rparr> =
        (Inr [], \<lparr>buf = pre @ [c] @ ls, pos = length pre + 1 + length ls\<rparr>)) \<and>
   (253 < uint c \<and> int (length rest) < from_bytes [l0, l1, l2] False \<longrightarrow>
      Bytes_deserialize \<lparr>buf = pre @ [c, l0, l1, l2] @ rest, pos = length pre\<rparr> =
        (Inr rest,
         \<lparr>buf = pre @ [c, l0, l1, l2] @ rest, pos = length pre + 4 + length rest\<rparr>)) \<and>
   (Bytes_deserialize data = (Inr payload, data') \<longrightarrow>
      String_deserialize decode data = (Inr (decode payload), data')) \<and>
   (remaining data < 8 \<longrightarrow>
      (Vector_deserialize data ty = (Inr items, data') \<longleftrightarrow>
         length items = nat (from_bytes (drop (pos data + 4) (buf data)) True) \<and>
         successive_reads ty (data\<lparr>pos := pos data + remaining data\<rparr>) items data')) \<and>
   (Vector_deserialize data ty = (Inr items, data') \<longleftrightarrow>
      length items = nat (from_bytes (take 4 (drop (pos data + 4) (buf data))) True) \<and>
      successive_reads ty (data\<lparr>pos := pos data + min 8 (remaining data)\<rparr>) items data') \<and>
   (Vector_deserialize data ty = (Inl e, data') \<longrightarrow> (\<exists>d. ty d = (Inl e, data'))) \<and>
   Vector_deserialize data (\<lambda>d. Int_deserialize cls d is_signed) =
     (Inr (map (\<lambda>i. from_bytes
                 (take (LENGTH_of cls) (drop (pos data + 8 + LENGTH_of cls * i) (buf data)))
                 is_signed)
            [0..<nat (from_bytes (take 4 (drop (pos data + 4) (buf data))) True)]),
      data\<lparr>pos := pos data +
        min (8 + LENGTH_of cls * nat (from_bytes (take 4 (drop (pos data + 4) (buf data))) True))
          (remaining data)\<rparr>)"
proof -
  have str: "\<exists>payload data'.
      Bytes_deserialize data = (Inr payload, data') \<and>
      String_deserialize decode data = (Inr (decode payload), data') \<and>
      buf data' = buf data \<and> pos data' \<le> pos data + remaining data \<and>
      length payload \<le> remaining data"
    using Bytes_deserialize_total [of data] String_deserialize_of_Bytes [of data _ _ decode]
    by blast
  show ?thesis
    apply (intro conjI impI)
                 apply (erule Int_deserialize_short)
                apply (erule Bool_deserialize_short)
               apply (erule Double_deserialize_short)
              apply (rule str)
             apply (erule Vector_deserialize_short)
            apply (rule Bytes_deserialize_empty)
           apply (erule conjE, erule (1) Bytes_deserialize_cut_short)
          apply (erule conjE, erule (1) Bytes_deserialize_cut_length)
         apply (erule conjE, erule (1) Bytes_deserialize_cut_long)
        apply (erule String_deserialize_of_Bytes)
       apply (erule Vector_deserialize_cut_header)
      apply (rule Vector_deserialize_iff)
     apply (erule Vector_deserialize_error)
    apply (rule Vector_deserialize_Int)
    done
qed


theorem truncated_deserialize_no_underrun_witness:
  "remaining \<lparr>buf = [1, 2], pos = 0\<rparr> < LENGTH_of Long \<and>
   remaining \<lparr>buf = [1, 2], pos = 0\<rparr> < 4 \<and>
   Int_deserialize Long \<lparr>buf = [1, 2], pos = 0\<rparr> True = (Inr 513, \<lparr>buf = [1, 2], pos = 2\<rparr>) \<and>
   Bool_deserialize \<lparr>buf = [1, 2], pos = 0\<rparr> = (Inr False, \<lparr>buf = [1, 2], pos = 2\<rparr>) \<and>
   Double_deserialize \<lparr>buf = [1, 2], pos = 0\<rparr> = (Inl StructError, \<lparr>buf = [1, 2], pos = 2\<rparr>) \<and>
   Vector_deserialize \<lparr>buf = [1, 2], pos = 0\<rparr> (\<lambda>d. Int_deserialize Int32 d True) =
     (Inr [], \<lparr>buf = [1, 2], pos = 2\<rparr>) \<and>
   uint (5 :: byte) \<le> 253 \<and> length [0x61, 0x62 :: byte] < unat (5 :: byte) \<and>
   Bytes_deserialize \<lparr>buf = [5, 0x61, 0x62], pos = 0\<rparr> =
     (Inr [0x61, 0x62], \<lparr>buf = [5, 0x61, 0x62], pos = 3\<rparr>) \<and>
   253 < uint (0xFE :: byte) \<and> length [2 :: byte] < 3 \<and>
   Bytes_deserialize \<lparr>buf = [0xFE, 2], pos = 0\<rparr> = (Inr [], \<lparr>buf = [0xFE, 2], pos = 2\<rparr>) \<and>
   int (length [0x61, 0x62 :: byte]) < from_bytes [3, 0, 0] False \<and>
   Bytes_deserialize \<lparr>buf = [0xFE, 3, 0, 0, 0x61, 0x62], pos = 0\<rparr> =
     (Inr [0x61, 0x62], \<lparr>buf = [0xFE, 3, 0, 0, 0x61, 0x62], pos = 6\<rparr>) \<and>
   remaining \<lparr>buf = [0x15, 0xC4, 0xB5, 0x1C, 2], pos = 0\<rparr> < 8 \<and>
   Vector_deserialize \<lparr>buf = [0x15, 0xC4, 0xB5, 0x1C, 2], pos = 0\<rparr>
     (\<lambda>d. Int_deserialize Int32 d True) =
     (Inr [0, 0], \<lparr>buf = [0x15, 0xC4, 0xB5, 0x1C, 2], pos = 5\<rparr>) \<and>
   Vector_deserialize
     \<lparr>buf = [0x15, 0xC4, 0xB5, 0x1C, 3, 0, 0, 0, 1, 0, 0, 0, 0xFF], pos = 0\<rparr>
     (\<lambda>d. Int_deserialize Int32 d True) =
     (Inr [1, - 1, 0],
      \<lparr>buf = [0x15, 0xC4, 0xB5, 0x1C, 3, 0, 0, 0, 1, 0, 0, 0, 0xFF], pos = 13\<rparr>) \<and>
   Vector_deserialize \<lparr>buf = [0x15, 0xC4, 0xB5, 0x1C, 1, 0, 0, 0], pos = 0\<rparr>
     Double_deserialize =
     (Inl StructError, \<lparr>buf = [0x15, 0xC4, 0xB5, 0x1C, 1, 0, 0, 0], pos = 8\<rparr>) \<and>
   (\<exists>d. Double_deserialize d =
     (Inl StructError, \<lparr>buf = [0x15, 0xC4, 0xB5, 0x1C, 1, 0, 0, 0], pos = 8\<rparr>))"
proof -
  have rem: "remaining \<lparr>buf = [1, 2], pos = 0\<rparr> = 2"
    by (simp add: remaining_def)
  have val: "from_bytes [1, 2] True = 513"
    by (simp add: from_bytes_def)
  have len: "from_bytes [3, 0, 0] False = 3"
    by (simp add: from_bytes_def)
  have short: "remaining \<lparr>buf = [1, 2], pos = 0\<rparr> < LENGTH_of Long \<and>
     remaining \<lparr>buf = [1, 2], pos = 0\<rparr> < 4 \<and>
     Int_deserialize Long \<lparr>buf = [1, 2], pos = 0\<rparr> True = (Inr 513, \<lparr>buf = [1, 2], pos = 2\<rparr>) \<and>
     Bool_deserialize \<lparr>buf = [1, 2], pos = 0\<rparr> = (Inr False, \<lparr>buf = [1, 2], pos = 2\<rparr>) \<and>
     Double_deserialize \<lparr>buf = [1, 2], pos = 0\<rparr> = (Inl StructError, \<lparr>buf = [1, 2], pos = 2\<rparr>) \<and>
     Vector_deserialize \<lparr>buf = [1, 2], pos = 0\<rparr> (\<lambda>d. Int_deserialize Int32 d True) =
       (Inr [], \<lparr>buf = [1, 2], pos = 2\<rparr>) \<and>
     uint (5 :: byte) \<le> 253 \<and> length [0x61, 0x62 :: byte] < unat (5 :: byte) \<and>
     Bytes_deserialize \<lparr>buf = [5, 0x61, 0x62], pos = 0\<rparr> =
       (Inr [0x61, 0x62], \<lparr>buf = [5, 0x61, 0x62], pos = 3\<rparr>) \<and>
     253 < uint (0xFE :: byte) \<and> length [2 :: byte] < 3 \<and>
     Bytes_deserialize \<lparr>buf = [0xFE, 2], pos = 0\<rparr> = (Inr [], \<lparr>buf = [0xFE, 2], pos = 2\<rparr>) \<and>
     int (length [0x61, 0x62 :: byte]) < from_bytes [3, 0, 0] False \<and>
     Bytes_deserialize \<lparr>buf = [0xFE, 3, 0, 0, 0x61, 0x62], pos = 0\<rparr> =
       (Inr [0x61, 0x62], \<lparr>buf = [0xFE, 3, 0, 0, 0x61, 0x62], pos = 6\<rparr>)"
    using truncated_deserialize_no_underrun
      [where data = "\<lparr>buf = [1, 2], pos = 0\<rparr>" and cls = Long and is_signed = True
         and ty = "\<lambda>d. Int_deserialize Int32 d True" and pre = "[]" and b = 5
         and rest = "[0x61, 0x62]" and c = "0xFE" and ls = "[2]" and ?l0.0 = 3 and ?l1.0 = 0
         and ?l2.0 = 0]
    by (simp add: rem val len)
  have u2: "[0..<2] = [0, Suc 0]"
    by (simp add: numeral_2_eq_2)
  have u3: "[0..<3] = [0, Suc 0, Suc (Suc 0)]"
    by (simp add: numeral_3_eq_3)
  note final_conjunct = conjunct2 [THEN conjunct2, THEN conjunct2, THEN conjunct2, THEN conjunct2,
      THEN conjunct2, THEN conjunct2, THEN conjunct2, THEN conjunct2, THEN conjunct2,
      THEN conjunct2, THEN conjunct2, THEN conjunct2]
  have cut_header: "remaining \<lparr>buf = [0x15, 0xC4, 0xB5, 0x1C, 2], pos = 0\<rparr> < 8 \<and>
     Vector_deserialize \<lparr>buf = [0x15, 0xC4, 0xB5, 0x1C, 2], pos = 0\<rparr>
       (\<lambda>d. Int_deserialize Int32 d True) =
       (Inr [0, 0], \<lparr>buf = [0x15, 0xC4, 0xB5, 0x1C, 2], pos = 5\<rparr>)"
    using truncated_deserialize_no_underrun
      [where data = "\<lparr>buf = [0x15, 0xC4, 0xB5, 0x1C, 2], pos = 0\<rparr>" and cls = Int32
         and is_signed = True, THEN final_conjunct]
    by (simp add: remaining_def from_bytes_def u2)
  have cut_elements: "Vector_deserialize
       \<lparr>buf = [0x15, 0xC4, 0xB5, 0x1C, 3, 0, 0, 0, 1, 0, 0, 0, 0xFF], pos = 0\<rparr>
       (\<lambda>d. Int_deserialize Int32 d True) =
       (Inr [1, - 1, 0],
        \<lparr>buf = [0x15, 0xC4, 0xB5, 0x1C, 3, 0, 0, 0, 1, 0, 0, 0, 0xFF], pos = 13\<rparr>)"
    using truncated_deserialize_no_underrun
      [where data = "\<lparr>buf = [0x15, 0xC4, 0xB5, 0x1C, 3, 0, 0, 0, 1, 0, 0, 0, 0xFF], pos = 0\<rparr>"
         and cls = Int32 and is_signed = True, THEN final_conjunct]
    by (simp add: remaining_def from_bytes_def u3)
  have raised: "Vector_deserialize \<lparr>buf = [0x15, 0xC4, 0xB5, 0x1C, 1, 0, 0, 0], pos = 0\<rparr>
       Double_deserialize =
       (Inl StructError, \<lparr>buf = [0x15, 0xC4, 0xB5, 0x1C, 1, 0, 0, 0], pos = 8\<rparr>)"
    by (simp add: Vector_deserialize_def Int_deserialize_def Double_deserialize_def read_def
        remaining_def from_bytes_def)
  have element: "\<exists>d. Double_deserialize d =
       (Inl StructError, \<lparr>buf = [0x15, 0xC4, 0xB5, 0x1C, 1, 0, 0, 0], pos = 8\<rparr>)"
    using raised truncated_deserialize_no_underrun
      [where data = "\<lparr>buf = [0x15, 0xC4, 0xB5, 0x1C, 1, 0, 0, 0], pos = 0\<rparr>"
         and ty = Double_deserialize and e = StructError
         and data' = "\<lparr>buf = [0x15, 0xC4, 0xB5, 0x1C, 1, 0, 0, 0], pos = 8\<rparr>"]
    by blast
  from short cut_header cut_elements raised element show ?thesis
    by (simp only: simp_thms)
qed

end
